theory Spec2Isabelle
  imports Main
begin

section \<open>JavaScript string primitives used by \<open>src/app.js\<close>\<close>

text \<open>
  Header strings are modelled as \<open>string\<close>, one \<open>char\<close> per code unit below 256
  (HTTP header bytes). The functions below are the built-ins the source calls:
  \<open>String.prototype.trim\<close>, \<open>split\<close> with a one-character separator,
  \<open>toLowerCase\<close>, \<open>startsWith\<close>, \<open>substring(8)\<close> (which is \<open>drop 8\<close>) and
  \<open>parseInt\<close>.
\<close>

definition is_ws :: "char \<Rightarrow> bool" where
  \<comment> \<open>the white space and line terminators that \<open>trim\<close> strips, below code unit 256\<close>
  "is_ws c \<longleftrightarrow> c \<in> {CHR 0x09, CHR 0x0A, CHR 0x0B, CHR 0x0C, CHR 0x0D, CHR 0x20, CHR 0xA0}"

definition trim :: "string \<Rightarrow> string" where
  "trim s = rev (dropWhile is_ws (rev (dropWhile is_ws s)))"

fun split_on :: "char \<Rightarrow> string \<Rightarrow> string list" where
  \<comment> \<open>\<open>s.split(c)\<close>: the pieces between the occurrences of \<open>c\<close>; never empty
      (the second case below is never reached)\<close>
  "split_on c [] = [[]]"
| "split_on c (x # xs) =
     (if x = c then [] # split_on c xs
      else (case split_on c xs of
              w # ws \<Rightarrow> (x # w) # ws
            | [] \<Rightarrow> [[x]]))"

definition second :: "'a list \<Rightarrow> 'a option" where
  \<comment> \<open>the second target of the destructuring \<open>[name, value] = arr\<close>: \<open>undefined\<close> when absent\<close>
  "second xs = (case xs of _ # v # _ \<Rightarrow> Some v | _ \<Rightarrow> None)"

definition to_lower_char :: "char \<Rightarrow> char" where
  "to_lower_char c =
     (let n = (of_char c :: nat)
      in if (65 \<le> n \<and> n \<le> 90) \<or> (192 \<le> n \<and> n \<le> 222 \<and> n \<noteq> 215)
         then char_of (n + 32) else c)"

definition toLowerCase :: "string \<Rightarrow> string" where
  "toLowerCase s = map to_lower_char s"

definition startsWith :: "string \<Rightarrow> string \<Rightarrow> bool" where
  \<comment> \<open>\<open>startsWith s p\<close> is \<open>s.startsWith(p)\<close>\<close>
  "startsWith s p \<longleftrightarrow> take (length p) s = p"

definition digit_val :: "nat \<Rightarrow> char \<Rightarrow> nat option" where
  \<comment> \<open>the value of a digit of the given radix (10 or 16)\<close>
  "digit_val radix c =
     (let n = (of_char c :: nat);
          v = (if 48 \<le> n \<and> n \<le> 57 then Some (n - 48)
               else if 97 \<le> n \<and> n \<le> 102 then Some (n - 87)
               else if 65 \<le> n \<and> n \<le> 70 then Some (n - 55)
               else None)
      in case v of None \<Rightarrow> None | Some d \<Rightarrow> if d < radix then Some d else None)"

definition parseInt :: "string \<Rightarrow> int option" where
  \<comment> \<open>\<open>parseInt(s)\<close> with no radix argument; \<open>None\<close> is \<open>NaN\<close>. The result is kept
      as an exact integer: the Number that the source gets is that integer up to \<open>2^53\<close>
      in magnitude, which covers every number of seconds that gives a date the platform
      can hold, and is a rounding of it beyond (not modelled).\<close>
  "parseInt s =
     (let s1 = dropWhile is_ws s;
          neg = (s1 \<noteq> [] \<and> hd s1 = CHR ''-'');
          s2 = (if s1 \<noteq> [] \<and> (hd s1 = CHR ''-'' \<or> hd s1 = CHR ''+'') then tl s1 else s1);
          hex = (take 2 s2 = ''0x'' \<or> take 2 s2 = ''0X'');
          radix = (if hex then 16 else 10);
          s3 = (if hex then drop 2 s2 else s2);
          ds = takeWhile (\<lambda>c. digit_val radix c \<noteq> None) s3;
          n = foldl (\<lambda>a c. a * int radix + int (the (digit_val radix c))) 0 ds
      in if ds = [] then None else Some (if neg then - n else n))"

section \<open>Dates\<close>

text \<open>
  A \<open>Date\<close> is its time value: \<open>Some t\<close> with \<open>t\<close> in milliseconds since the epoch,
  or \<open>None\<close> for an Invalid Date. \<open>toISOString\<close> throws a RangeError on an Invalid
  Date; on a valid one the source stores the ISO string, which stands here for the
  time value it renders (the rendering is injective and never empty).

  What \<open>Date\<close> takes from the platform is the parameter \<open>pd\<close> of the functions that
  need it: the parser of date strings (\<open>Date.parse\<close> is implementation-defined outside
  the ISO format) and the local time zone, as the two offsets of ECMAScript's
  \<open>LocalTZA\<close>, in milliseconds: \<open>LocalTZA_utc pd t\<close> is the offset in force at the
  instant \<open>t\<close>, \<open>LocalTZA_local pd t\<close> the offset by which the local time \<open>t\<close> is
  read.
\<close>

datatype error = RangeError | TypeError

record platform =
  date_parse :: "string \<Rightarrow> int option"
  LocalTZA_utc :: "int \<Rightarrow> int"
  LocalTZA_local :: "int \<Rightarrow> int"

definition TimeClip :: "int \<Rightarrow> int option" where
  "TimeClip t = (if \<bar>t\<bar> \<le> 8640000000000000 then Some t else None)"

definition new_Date :: "platform \<Rightarrow> string \<Rightarrow> int option" where
  \<comment> \<open>\<open>new Date(s)\<close> for a string \<open>s\<close>\<close>
  "new_Date pd s = (case date_parse pd s of None \<Rightarrow> None | Some t \<Rightarrow> TimeClip t)"

definition toISOString :: "int option \<Rightarrow> error + int" where
  "toISOString d = (case d of None \<Rightarrow> Inl RangeError | Some t \<Rightarrow> Inr t)"

definition LocalTime :: "platform \<Rightarrow> int \<Rightarrow> int" where
  "LocalTime pd t = t + LocalTZA_utc pd t"

definition UTC :: "platform \<Rightarrow> int \<Rightarrow> int" where
  "UTC pd t = t - LocalTZA_local pd t"

definition Day :: "int \<Rightarrow> int" where
  "Day t = t div 86400000"

definition HourFromTime :: "int \<Rightarrow> int" where
  "HourFromTime t = (t div 3600000) mod 24"

definition MinFromTime :: "int \<Rightarrow> int" where
  "MinFromTime t = (t div 60000) mod 60"

definition SecFromTime :: "int \<Rightarrow> int" where
  "SecFromTime t = (t div 1000) mod 60"

definition msFromTime :: "int \<Rightarrow> int" where
  "msFromTime t = t mod 1000"

definition MakeTime :: "int \<Rightarrow> int \<Rightarrow> int \<Rightarrow> int \<Rightarrow> int" where
  "MakeTime hour minute sec ms = hour * 3600000 + minute * 60000 + sec * 1000 + ms"

definition MakeDate :: "int \<Rightarrow> int \<Rightarrow> int" where
  "MakeDate day time = day * 86400000 + time"

definition getSeconds :: "platform \<Rightarrow> int \<Rightarrow> int" where
  \<comment> \<open>\<open>d.getSeconds()\<close> for a valid date \<open>d\<close> with time value \<open>t\<close>: the seconds of
      the local time\<close>
  "getSeconds pd t = SecFromTime (LocalTime pd t)"

definition setSeconds :: "platform \<Rightarrow> int \<Rightarrow> int \<Rightarrow> int option" where
  \<comment> \<open>the time value of \<open>d\<close> after \<open>d.setSeconds(sec)\<close>: the seconds field of the
      local time is replaced and the result is read back as a local time\<close>
  "setSeconds pd t sec =
     (let lt = LocalTime pd t
      in TimeClip (UTC pd (MakeDate (Day lt)
                             (MakeTime (HourFromTime lt) (MinFromTime lt) sec (msFromTime lt)))))"

definition add_seconds :: "platform \<Rightarrow> int \<Rightarrow> int \<Rightarrow> int option" where
  \<comment> \<open>lines 142-143: \<open>d = new Date(); d.setSeconds(d.getSeconds() + seconds)\<close> with
      the clock at \<open>now\<close>\<close>
  "add_seconds pd now seconds = setSeconds pd now (getSeconds pd now + seconds)"

section \<open>Cookie records and the store\<close>

text \<open>
  The objects kept in \<open>requestCookies\<close>. A property that is absent or \<open>undefined\<close>
  is \<open>None\<close>. \<open>cvalue\<close> is the property \<open>value\<close>; \<open>expires\<close> holds the time value
  of the stored ISO string.
\<close>

record cookie =
  name :: string
  cvalue :: "string option"
  domain :: string
  path :: "string option"
  expires :: "int option"
  maxAge :: "int option"
  httpOnly :: "bool option"
  secure :: "bool option"
  sameSite :: "string option"
  url :: string

type_synonym store = "(string \<times> cookie) list"

text \<open>
  \<open>requestCookies\<close> is a \<open>Map\<close>: an association list in insertion order; \<open>set\<close> on a
  key that is present replaces the value in place, on a new key appends.
\<close>

fun map_set :: "'k \<Rightarrow> 'v \<Rightarrow> ('k \<times> 'v) list \<Rightarrow> ('k \<times> 'v) list" where
  "map_set k v [] = [(k, v)]"
| "map_set k v ((k', v') # m) = (if k' = k then (k, v) # m else (k', v') # map_set k v m)"

definition map_get :: "('k \<times> 'v) list \<Rightarrow> 'k \<Rightarrow> 'v option" where
  "map_get m k = map_of m k"

definition cookie_key :: "string \<Rightarrow> string \<Rightarrow> string" where
  \<comment> \<open>the template string \<open>${domain}|${name}\<close>\<close>
  "cookie_key d n = d @ ''|'' @ n"

section \<open>Request headers (lines 81-102)\<close>

definition request_cookie :: "string \<Rightarrow> string \<Rightarrow> string \<Rightarrow> cookie" where
  \<comment> \<open>the callback of \<open>map\<close> at lines 90-93\<close>
  "request_cookie host u seg =
     (let parts = split_on CHR ''='' (trim seg)
      in \<lparr> name = hd parts, cvalue = second parts, domain = host, path = None,
           expires = None, maxAge = None, httpOnly = None, secure = None,
           sameSite = None, url = u \<rparr>)"

definition request_cookies :: "string \<Rightarrow> string \<Rightarrow> string \<Rightarrow> cookie list" where
  "request_cookies host u cookieHeader = map (request_cookie host u) (split_on CHR '';'' cookieHeader)"

definition merge_request :: "cookie \<Rightarrow> store \<Rightarrow> store" where
  \<comment> \<open>lines 97-98\<close>
  "merge_request c m = map_set (cookie_key (domain c) (name c)) c m"

definition on_request :: "string \<Rightarrow> string \<Rightarrow> string option \<Rightarrow> store \<Rightarrow> store" where
  \<comment> \<open>\<open>u\<close> is \<open>request.url()\<close>, \<open>host\<close> its hostname, \<open>h\<close> is \<open>headers.cookie\<close>
      (falsy when absent or empty)\<close>
  "on_request u host h m =
     (case h of None \<Rightarrow> m
      | Some cookieHeader \<Rightarrow>
          if cookieHeader = [] then m
          else foldl (\<lambda>m c. merge_request c m) m (request_cookies host u cookieHeader))"

section \<open>Response headers (lines 105-178)\<close>

fun scan_attrs ::
  "platform \<Rightarrow> int \<Rightarrow> string list \<Rightarrow> int option \<times> int option
     \<Rightarrow> error + (int option \<times> int option)" where
  \<comment> \<open>the loop of lines 132-148 over \<open>cookieParts[1..]\<close>; the state is
      \<open>(expires, maxAge)\<close>; \<open>Inl\<close> is the exception that leaves the loop\<close>
  "scan_attrs pd now [] st = Inr st"
| "scan_attrs pd now (p # ps) (ex, ma) =
     (let part = trim p
      in if startsWith (toLowerCase part) ''expires='' then
           (case toISOString (new_Date pd (drop 8 part)) of
              Inl e \<Rightarrow> Inl e
            | Inr t \<Rightarrow> scan_attrs pd now ps (Some t, ma))
         else if startsWith (toLowerCase part) ''max-age='' then
           (case parseInt (drop 8 part) of
              None \<Rightarrow> scan_attrs pd now ps (ex, ma)
            | Some seconds \<Rightarrow>
                if ex = None then
                  (case toISOString (add_seconds pd now seconds) of
                     Inl e \<Rightarrow> Inl e
                   | Inr t \<Rightarrow> scan_attrs pd now ps (Some t, Some seconds))
                else scan_attrs pd now ps (ex, Some seconds))
         else scan_attrs pd now ps (ex, ma))"

datatype parsed =
  Parsed (p_name: string) (p_value: "string option") (p_expires: "int option")
    (p_maxAge: "int option")

definition parse_set_cookie ::
  "platform \<Rightarrow> int \<Rightarrow> string \<Rightarrow> error + parsed option" where
  \<comment> \<open>lines 122-148: \<open>Inr None\<close> is the \<open>continue\<close> of line 126, \<open>Inl\<close> an
      exception on its way to the \<open>catch\<close> of line 170\<close>
  "parse_set_cookie pd now setCookie =
     (let cookieParts = split_on CHR '';'' setCookie;
          mainPart = trim (hd cookieParts);
          nv = split_on CHR ''='' mainPart
      in if hd nv = [] then Inr None
         else case scan_attrs pd now (tl cookieParts) (None, None) of
                Inl e \<Rightarrow> Inl e
              | Inr (ex, ma) \<Rightarrow> Inr (Some (Parsed (hd nv) (second nv) ex ma)))"

definition merge_set_cookie :: "string \<Rightarrow> string \<Rightarrow> parsed \<Rightarrow> store \<Rightarrow> store" where
  \<comment> \<open>lines 151-169\<close>
  "merge_set_cookie host u p m =
     (let key = cookie_key host (p_name p)
      in case map_get m key of
           Some existingCookie \<Rightarrow>
             map_set key (existingCookie\<lparr>expires := p_expires p, maxAge := p_maxAge p\<rparr>) m
         | None \<Rightarrow>
             map_set key
               \<lparr> name = p_name p, cvalue = p_value p, domain = host, path = None,
                 expires = p_expires p, maxAge = p_maxAge p, httpOnly = None,
                 secure = None, sameSite = None, url = u \<rparr> m)"

definition on_set_cookie ::
  "platform \<Rightarrow> int \<Rightarrow> string \<Rightarrow> string \<Rightarrow> string \<Rightarrow> store \<Rightarrow> store" where
  \<comment> \<open>the body of the loop at line 119: a caught exception and a nameless cookie
      both leave the store as it is\<close>
  "on_set_cookie pd now host u setCookie m =
     (case parse_set_cookie pd now setCookie of
        Inl e \<Rightarrow> m
      | Inr None \<Rightarrow> m
      | Inr (Some p) \<Rightarrow> merge_set_cookie host u p m)"

datatype header_value = HString string | HArray "string list"

definition set_cookie_list :: "header_value option \<Rightarrow> string list" where
  \<comment> \<open>lines 113-117: a falsy header gives nothing to do\<close>
  "set_cookie_list hv =
     (case hv of
        None \<Rightarrow> []
      | Some (HString s) \<Rightarrow> if s = [] then [] else [s]
      | Some (HArray xs) \<Rightarrow> xs)"

definition on_response ::
  "platform \<Rightarrow> int \<Rightarrow> string \<Rightarrow> string \<Rightarrow> header_value option \<Rightarrow> store \<Rightarrow> store" where
  \<comment> \<open>\<open>u\<close> is \<open>response.url()\<close>, \<open>host\<close> its hostname, \<open>now\<close> the clock\<close>
  "on_response pd now u host hv m =
     foldl (\<lambda>m setCookie. on_set_cookie pd now host u setCookie m) m (set_cookie_list hv)"

section \<open>Cookie-store snapshots (lines 39-78)\<close>

text \<open>
  One entry of \<open>Network.getAllCookies\<close>. \<open>c_expires\<close> is in seconds since the
  epoch, modelled in whole seconds (the fraction of a second that the browser may
  report is left out); the browser reports \<open>-1\<close> for a session cookie.
\<close>

record cdp_cookie =
  c_name :: string
  c_value :: string
  c_domain :: string
  c_path :: string
  c_expires :: "int option"
  c_httpOnly :: bool
  c_secure :: bool
  c_sameSite :: "string option"

definition snapshot_url :: "string \<Rightarrow> string" where
  \<comment> \<open>lines 49-51\<close>
  "snapshot_url d = (if startsWith d ''.'' then ''https://'' @ drop 1 d else ''https://'' @ d)"

definition snapshot_expires :: "int option \<Rightarrow> error + int option" where
  \<comment> \<open>line 63: \<open>cookie.expires ? new Date(cookie.expires * 1000).toISOString() : undefined\<close>\<close>
  "snapshot_expires x =
     (case x of
        None \<Rightarrow> Inr None
      | Some e \<Rightarrow>
          if e = 0 then Inr None
          else (case toISOString (TimeClip (e * 1000)) of
                  Inl err \<Rightarrow> Inl err
                | Inr t \<Rightarrow> Inr (Some t)))"

definition snapshot_record :: "cdp_cookie \<Rightarrow> error + cookie" where
  \<comment> \<open>the object literal of lines 58-68\<close>
  "snapshot_record c =
     (case snapshot_expires (c_expires c) of
        Inl err \<Rightarrow> Inl err
      | Inr ex \<Rightarrow>
          Inr \<lparr> name = c_name c, cvalue = Some (c_value c), domain = c_domain c,
                path = Some (c_path c), expires = ex, maxAge = None,
                httpOnly = Some (c_httpOnly c), secure = Some (c_secure c),
                sameSite = c_sameSite c, url = snapshot_url (c_domain c) \<rparr>)"

definition snapshot_merge :: "cdp_cookie \<Rightarrow> store \<Rightarrow> store" where
  \<comment> \<open>lines 48-72, one cookie of the snapshot\<close>
  "snapshot_merge c m =
     (let key = cookie_key (c_domain c) (c_name c);
          existing = map_get m key
      in if (case existing of None \<Rightarrow> True | Some e \<Rightarrow> expires e = None) then
           (case snapshot_record c of
              Inl err \<Rightarrow> m
            | Inr r \<Rightarrow> map_set key r m)
         else m)"

definition capturePageCookies :: "cdp_cookie list option \<Rightarrow> store \<Rightarrow> store" where
  \<comment> \<open>\<open>None\<close>: the CDP call failed or returned no \<open>cookies\<close>\<close>
  "capturePageCookies cs m =
     (case cs of None \<Rightarrow> m | Some cookies \<Rightarrow> foldl (\<lambda>m c. snapshot_merge c m) m cookies)"

section \<open>A capture run\<close>

text \<open>
  The callbacks and the three checkpoints run one at a time on the event loop, in an
  order the program does not control: a run is a list of events applied to the store.
  \<open>Request u host h\<close> is a request to the URL \<open>u\<close> with hostname \<open>host\<close> and
  \<open>Cookie\<close> header \<open>h\<close>; \<open>Response now u host hv\<close> is a response from \<open>u\<close> with
  \<open>Set-Cookie\<close> header \<open>hv\<close>, handled when the clock reads \<open>now\<close>;
  \<open>Snapshot cs\<close> is one call of \<open>capturePageCookies\<close> that reads \<open>cs\<close>.
\<close>

datatype event =
  Request string string "string option"
| Response int string string "header_value option"
| Snapshot "cdp_cookie list option"

fun step :: "platform \<Rightarrow> store \<Rightarrow> event \<Rightarrow> store" where
  "step pd m (Request u host h) = on_request u host h m"
| "step pd m (Response now u host hv) = on_response pd now u host hv m"
| "step pd m (Snapshot cs) = capturePageCookies cs m"

definition run :: "platform \<Rightarrow> event list \<Rightarrow> store" where
  "run pd evs = foldl (step pd) [] evs"

section \<open>The report (lines 220-247)\<close>

datatype expires_view = Iso int | Text string

record cookie_view =
  v_name :: string
  v_value :: "string option"
  v_expires :: expires_view
  v_path :: "string option"
  v_httpOnly :: "bool option"
  v_secure :: "bool option"
  v_sameSite :: "string option"

record report =
  r_url :: string
  captureDate :: int
  totalCookies :: nat
  cookiesByDomain :: "(string \<times> cookie_view list) list"
  allCookies :: "cookie list"

definition view_of :: "cookie \<Rightarrow> cookie_view" where
  \<comment> \<open>lines 229-237; an ISO string is never empty, so \<open>||\<close> takes the right
      operand only for \<open>undefined\<close>\<close>
  "view_of c =
     \<lparr> v_name = name c, v_value = cvalue c,
       v_expires = (case expires c of None \<Rightarrow> Text ''Session cookie (no expiration)''
                    | Some t \<Rightarrow> Iso t),
       v_path = path c, v_httpOnly = httpOnly c, v_secure = secure c,
       v_sameSite = sameSite c \<rparr>"

definition object_prototype_keys :: "string list" where
  \<comment> \<open>the properties that \<open>{}\<close> inherits from \<open>Object.prototype\<close>: each is truthy
      and has no \<open>push\<close>\<close>
  "object_prototype_keys =
     [''constructor'', ''__defineGetter__'', ''__defineSetter__'', ''hasOwnProperty'',
      ''__lookupGetter__'', ''__lookupSetter__'', ''isPrototypeOf'',
      ''propertyIsEnumerable'', ''toString'', ''valueOf'', ''__proto__'',
      ''toLocaleString'']"

definition push_view ::
  "cookie \<Rightarrow> (string \<times> cookie_view list) list \<Rightarrow> error + (string \<times> cookie_view list) list" where
  \<comment> \<open>the callback of \<open>forEach\<close> at lines 225-238\<close>
  "push_view c byDomain =
     (case map_get byDomain (domain c) of
        Some views \<Rightarrow> Inr (map_set (domain c) (views @ [view_of c]) byDomain)
      | None \<Rightarrow>
          if domain c \<in> set object_prototype_keys then Inl TypeError
          else Inr (map_set (domain c) [view_of c] byDomain))"

fun group_views ::
  "cookie list \<Rightarrow> (string \<times> cookie_view list) list \<Rightarrow> error + (string \<times> cookie_view list) list" where
  "group_views [] byDomain = Inr byDomain"
| "group_views (c # cs) byDomain =
     (case push_view c byDomain of
        Inl e \<Rightarrow> Inl e
      | Inr byDomain' \<Rightarrow> group_views cs byDomain')"

definition build_report :: "string \<Rightarrow> int \<Rightarrow> store \<Rightarrow> error + report" where
  \<comment> \<open>\<open>date\<close> is the clock at line 243\<close>
  "build_report u date m =
     (let cookiesArray = map snd m
      in case group_views cookiesArray [] of
           Inl e \<Rightarrow> Inl e
         | Inr byDomain \<Rightarrow>
             Inr \<lparr> r_url = u, captureDate = date, totalCookies = length cookiesArray,
                   cookiesByDomain = byDomain, allCookies = cookiesArray \<rparr>)"

section \<open>Attribute kinds\<close>

text \<open>The two tests of lines 134 and 136, named for the statements below.\<close>

definition expires_attr :: "string \<Rightarrow> bool" where
  "expires_attr p \<longleftrightarrow> startsWith (toLowerCase (trim p)) ''expires=''"

definition max_age_attr :: "string \<Rightarrow> bool" where
  "max_age_attr p \<longleftrightarrow> startsWith (toLowerCase (trim p)) ''max-age=''"

definition max_ages :: "string list \<Rightarrow> int list" where
  \<comment> \<open>the numbers of the \<open>Max-Age\<close> attributes that \<open>parseInt\<close> accepts, in order\<close>
  "max_ages attrs =
     List.map_filter (\<lambda>p. if max_age_attr p then parseInt (drop 8 (trim p)) else None) attrs"

section \<open>Keys of the store and of a run\<close>

definition keys :: "('k \<times> 'v) list \<Rightarrow> 'k set" where
  "keys m = fst ` set m"

definition well_keyed :: "store \<Rightarrow> bool" where
  \<comment> \<open>no key twice, and every record sits at the key made of its own domain and name\<close>
  "well_keyed m \<longleftrightarrow>
     distinct (map fst m) \<and> (\<forall>(k, r) \<in> set m. k = cookie_key (domain r) (name r))"

text \<open>
  The keys of the observations of one event that reach \<open>requestCookies\<close>: every segment
  of a request header, every \<open>Set-Cookie\<close> header that parses to a named cookie, every
  snapshot entry whose record can be built.
\<close>

definition event_keys :: "platform \<Rightarrow> event \<Rightarrow> string list" where
  "event_keys pd ev =
     (case ev of
        Request u host h \<Rightarrow>
          (case h of
             None \<Rightarrow> []
           | Some cookieHeader \<Rightarrow>
               if cookieHeader = [] then []
               else map (\<lambda>c. cookie_key (domain c) (name c)) (request_cookies host u cookieHeader))
      | Response now u host hv \<Rightarrow>
          concat (map (\<lambda>setCookie.
                         case parse_set_cookie pd now setCookie of
                           Inr (Some p) \<Rightarrow> [cookie_key host (p_name p)]
                         | _ \<Rightarrow> [])
                    (set_cookie_list hv))
      | Snapshot cs \<Rightarrow>
          (case cs of
             None \<Rightarrow> []
           | Some cookies \<Rightarrow>
               concat (map (\<lambda>c. case snapshot_record c of
                                   Inr r \<Rightarrow> [cookie_key (c_domain c) (c_name c)]
                                 | Inl e \<Rightarrow> [])
                         cookies)))"

section \<open>Concrete inputs for the examples\<close>

definition no_dates :: platform where
  \<comment> \<open>a platform in UTC whose \<open>Date.parse\<close> recognises no string\<close>
  "no_dates = \<lparr> date_parse = (\<lambda>s. None), LocalTZA_utc = (\<lambda>t. 0), LocalTZA_local = (\<lambda>t. 0) \<rparr>"

definition one_date :: platform where
  \<comment> \<open>a platform in UTC whose \<open>Date.parse\<close> recognises one string, ten seconds after
      the epoch\<close>
  "one_date =
     \<lparr> date_parse = (\<lambda>s. if s = ''Thu, 01 Jan 1970 00:00:10 GMT'' then Some 10000 else None),
       LocalTZA_utc = (\<lambda>t. 0), LocalTZA_local = (\<lambda>t. 0) \<rparr>"

definition new_york :: platform where
  \<comment> \<open>the zone America/New_York around 10 March 2024, when the offset went from -5 h
      to -4 h at 07:00 UTC (02:00 local time, read as 03:00)\<close>
  "new_york =
     \<lparr> date_parse = (\<lambda>s. None),
       LocalTZA_utc = (\<lambda>t. if t < 1710054000000 then - 18000000 else - 14400000),
       LocalTZA_local = (\<lambda>t. if t < 1710039600000 then - 18000000 else - 14400000) \<rparr>"

definition header_a :: cookie where
  \<comment> \<open>the observation of \<open>Cookie: a=1\<close> sent to \<open>x.com\<close>\<close>
  "header_a = request_cookie ''x.com'' ''https://x.com/'' ''a=1''"

definition stored_a :: cookie where
  \<comment> \<open>the same record after \<open>Set-Cookie: a=1; Max-Age=10\<close> at time 0\<close>
  "stored_a = header_a\<lparr>expires := Some 10000, maxAge := Some 10\<rparr>"

definition snapshot_a :: "int option \<Rightarrow> cdp_cookie" where
  \<comment> \<open>a snapshot entry for the same key, with another value\<close>
  "snapshot_a e = \<lparr> c_name = ''a'', c_value = ''2'', c_domain = ''x.com'', c_path = ''/'',
     c_expires = e, c_httpOnly = False, c_secure = True, c_sameSite = None \<rparr>"

definition example_events :: "event list" where
  \<comment> \<open>a request header, a response and a snapshot, all about \<open>x.com\<close>\<close>
  "example_events =
     [Request ''https://x.com/'' ''x.com'' (Some ''a=1; b=2''),
      Response 0 ''https://x.com/'' ''x.com'' (Some (HString ''a=1; Max-Age=10'')),
      Snapshot (Some [snapshot_a (Some 0)])]"

definition example_store :: store where
  \<comment> \<open>two domains, one record with an expiry and one without\<close>
  "example_store =
     [(''x.com|a'', stored_a),
      (''y.org|b'', request_cookie ''y.org'' ''https://y.org/'' ''b=2'')]"

section \<open>The store as a map\<close>

lemma map_get_map_set: "map_get (map_set k v m) k' = (if k' = k then Some v else map_get m k')"
  by (induction m) (auto simp: map_get_def)

lemma map_fst_map_set:
  "map fst (map_set k v m) = (if k \<in> set (map fst m) then map fst m else map fst m @ [k])"
proof (induction m)
  case Nil
  show ?case by simp
next
  case (Cons p m)
  obtain k' v' where p: "p = (k', v')" by (cases p)
  show ?case using Cons by (cases "k' = k") (simp_all add: p)
qed

lemma keys_map_set: "set (map fst (map_set k v m)) = insert k (set (map fst m))"
  by (auto simp: map_fst_map_set)

lemma distinct_map_set: "distinct (map fst m) \<Longrightarrow> distinct (map fst (map_set k v m))"
  by (auto simp: map_fst_map_set)

lemma map_set_entries: "(k', v') \<in> set (map_set k v m) \<Longrightarrow> (k', v') = (k, v) \<or> (k', v') \<in> set m"
  by (induction m) (auto split: if_splits)

section \<open>Splitting and trimming\<close>

lemma split_on_not_Nil: "split_on c s \<noteq> []"
  by (induction s) (auto split: list.splits)

lemma hd_split_on: "hd (split_on c s) = takeWhile (\<lambda>x. x \<noteq> c) s"
  by (induction s) (auto split: list.splits simp: split_on_not_Nil)

lemma split_on_absent: "c \<notin> set s \<Longrightarrow> split_on c s = [s]"
  by (induction s) auto

lemma set_trim: "set (trim s) \<subseteq> set s"
proof -
  have "set (trim s) \<subseteq> set (dropWhile is_ws s)"
    unfolding trim_def using set_dropWhileD by fastforce
  also have "\<dots> \<subseteq> set s" using set_dropWhileD by fastforce
  finally show ?thesis .
qed

lemma header_a_eq:
  "header_a = \<lparr> name = ''a'', cvalue = Some ''1'', domain = ''x.com'', path = None,
     expires = None, maxAge = None, httpOnly = None, secure = None, sameSite = None,
     url = ''https://x.com/'' \<rparr>"
  by code_simp

section \<open>Set-Cookie after a request header, and the other way round\<close>

text \<open>
  Claim C1, as amended. A request-header observation followed by a \<open>Set-Cookie\<close>
  observation with expiry \<open>E\<close> for the same key leaves the record with expiry \<open>E\<close>;
  and a \<open>Set-Cookie\<close> observation merged onto an existing record changes \<open>expires\<close>
  and \<open>maxAge\<close> only, every other field of the record staying as it was.
\<close>

theorem set_cookie_after_request:
  "(domain a = host \<and> name a = n \<longrightarrow>
      map_get (merge_set_cookie host u (Parsed n v (Some E) ma) (merge_request a m))
        (cookie_key host n) = Some (a\<lparr>expires := Some E, maxAge := ma\<rparr>))
   \<and> (map_get m' (cookie_key host (p_name p)) = Some r \<longrightarrow>
      map_get (merge_set_cookie host u p m') (cookie_key host (p_name p))
        = Some (r\<lparr>expires := p_expires p, maxAge := p_maxAge p\<rparr>))"
  by (simp add: merge_set_cookie_def merge_request_def map_get_map_set Let_def)

theorem set_cookie_after_request_witness:
  "domain header_a = ''x.com'' \<and> name header_a = ''a''
   \<and> map_get [(''x.com|a'', header_a)] (cookie_key ''x.com'' (p_name (Parsed ''a'' None None None)))
       = Some header_a
   \<and> map_get (merge_set_cookie ''x.com'' ''https://x.com/'' (Parsed ''a'' (Some ''1'') (Some 10000) (Some 10))
         (merge_request header_a [])) (cookie_key ''x.com'' ''a'')
       = Some (header_a\<lparr>expires := Some 10000, maxAge := Some 10\<rparr>)
   \<and> map_get (merge_set_cookie ''x.com'' ''https://x.com/'' (Parsed ''a'' None None None)
         [(''x.com|a'', header_a)]) (cookie_key ''x.com'' (p_name (Parsed ''a'' None None None)))
       = Some (header_a\<lparr>expires := None, maxAge := None\<rparr>)"
proof -
  have h1: "domain header_a = ''x.com'' \<and> name header_a = ''a''"
    by (simp add: header_a_eq)
  have h2: "map_get [(''x.com|a'', header_a)] (cookie_key ''x.com'' (p_name (Parsed ''a'' None None None)))
       = Some header_a"
    by (simp add: map_get_def cookie_key_def)
  from h1 h2
    set_cookie_after_request [of header_a "''x.com''" "''a''" "''https://x.com/''" "Some ''1''" 10000
      "Some 10" "[]" "[(''x.com|a'', header_a)]" "Parsed ''a'' None None None" header_a]
  show ?thesis by simp
qed

text \<open>
  The claim as stated fails in the other order: after \<open>Set-Cookie: a=1; Max-Age=10\<close>
  the record has an expiry, and the request header \<open>Cookie: a=1\<close> that follows stores
  its own record at the key (line 98), which has none.
\<close>

theorem request_after_set_cookie_clears_expiry:
  "map_option expires (map_get (run no_dates
       [Response 0 ''https://x.com/'' ''x.com'' (Some (HString ''a=1; Max-Age=10'')),
        Request ''https://x.com/'' ''x.com'' (Some ''a=1'')]) ''x.com|a'') = Some None
   \<and> map_option expires (map_get (run no_dates
       [Request ''https://x.com/'' ''x.com'' (Some ''a=1''),
        Response 0 ''https://x.com/'' ''x.com'' (Some (HString ''a=1; Max-Age=10''))]) ''x.com|a'')
      = Some (Some 10000)"
  by code_simp

section \<open>Snapshots against a record without expiry\<close>

text \<open>
  Claim C2, as amended. When the record at a snapshot entry's key has no \<open>expires\<close>,
  the entry's own record (lines 58-68) takes its place, every field coming from the
  snapshot; with \<open>expires = 0\<close> the new record has no expiry either.
\<close>

theorem snapshot_replaces_record_without_expiry:
  assumes "map_get m (cookie_key (c_domain c) (c_name c)) = Some r"
    and "expires r = None"
  shows "(\<forall>ex. snapshot_expires (c_expires c) = Inr ex \<longrightarrow>
            map_get (snapshot_merge c m) (cookie_key (c_domain c) (c_name c))
              = Some \<lparr> name = c_name c, cvalue = Some (c_value c), domain = c_domain c,
                       path = Some (c_path c), expires = ex, maxAge = None,
                       httpOnly = Some (c_httpOnly c), secure = Some (c_secure c),
                       sameSite = c_sameSite c, url = snapshot_url (c_domain c) \<rparr>)
         \<and> (c_expires c = Some 0 \<longrightarrow> snapshot_expires (c_expires c) = Inr None)"
  using assms
  by (simp add: snapshot_merge_def snapshot_record_def snapshot_expires_def map_get_map_set)

theorem snapshot_replaces_record_without_expiry_witness:
  "map_get [(''x.com|a'', header_a)]
      (cookie_key (c_domain (snapshot_a (Some 0))) (c_name (snapshot_a (Some 0)))) = Some header_a
   \<and> expires header_a = None
   \<and> c_expires (snapshot_a (Some 0)) = Some 0
   \<and> snapshot_expires (c_expires (snapshot_a (Some 0))) = Inr None
   \<and> map_get (snapshot_merge (snapshot_a (Some 0)) [(''x.com|a'', header_a)]) ''x.com|a''
       = Some \<lparr> name = ''a'', cvalue = Some ''2'', domain = ''x.com'', path = Some ''/'',
                expires = None, maxAge = None, httpOnly = Some False, secure = Some True,
                sameSite = None, url = ''https://x.com'' \<rparr>"
proof -
  have h1: "map_get [(''x.com|a'', header_a)]
      (cookie_key (c_domain (snapshot_a (Some 0))) (c_name (snapshot_a (Some 0)))) = Some header_a"
    by (simp add: map_get_def cookie_key_def snapshot_a_def)
  have h2: "expires header_a = None" by (simp add: header_a_eq)
  have h3: "c_expires (snapshot_a (Some 0)) = Some 0" by (simp add: snapshot_a_def)
  have u: "snapshot_url ''x.com'' = ''https://x.com''"
    by (simp add: snapshot_url_def startsWith_def)
  from snapshot_replaces_record_without_expiry [OF h1 h2] h1 h2 h3
  show ?thesis by (simp add: snapshot_a_def cookie_key_def u)
qed

text \<open>
  The claim as stated fails: the value that the request header set is not kept when the
  snapshot reports another one.
\<close>

theorem snapshot_overwrites_header_value:
  "map_option cvalue (map_get (run no_dates
       [Request ''https://x.com/'' ''x.com'' (Some ''a=1'')]) ''x.com|a'') = Some (Some ''1'')
   \<and> map_option cvalue (map_get (run no_dates
       [Request ''https://x.com/'' ''x.com'' (Some ''a=1''),
        Snapshot (Some [snapshot_a (Some 0)])]) ''x.com|a'') = Some (Some ''2'')"
  by code_simp

section \<open>Snapshots against a record that has an expiry\<close>

text \<open>
  Claim C3. When the record at a snapshot entry's key already has a defined \<open>expires\<close>,
  merging that entry changes nothing: the guard of line 57 is false, so the whole store,
  and the record with it, stays as it was.
\<close>

theorem snapshot_keeps_record_with_expiry:
  assumes "map_get m (cookie_key (c_domain c) (c_name c)) = Some r"
    and "expires r = Some e"
  shows "snapshot_merge c m = m"
  using assms by (simp add: snapshot_merge_def)

theorem snapshot_keeps_record_with_expiry_witness:
  "map_get [(''x.com|a'', stored_a)]
      (cookie_key (c_domain (snapshot_a (Some 99))) (c_name (snapshot_a (Some 99)))) = Some stored_a
   \<and> expires stored_a = Some 10000
   \<and> snapshot_merge (snapshot_a (Some 99)) [(''x.com|a'', stored_a)] = [(''x.com|a'', stored_a)]"
proof -
  have h1: "map_get [(''x.com|a'', stored_a)]
      (cookie_key (c_domain (snapshot_a (Some 99))) (c_name (snapshot_a (Some 99)))) = Some stored_a"
    by (simp add: map_get_def cookie_key_def snapshot_a_def)
  have h2: "expires stored_a = Some 10000" by (simp add: stored_a_def)
  from snapshot_keeps_record_with_expiry [OF h1 h2] h1 h2 show ?thesis by simp
qed

section \<open>A value that contains an equals sign\<close>

text \<open>
  Claim C5 says that the value of the segment \<open>a=b=c\<close> is \<open>b=c\<close>. The source splits
  the segment at every \<open>=\<close> and keeps the first two pieces (line 91), so the value it
  records is \<open>b\<close>.
\<close>

theorem value_cut_at_second_equals_sign:
  "request_cookies ''x.com'' ''https://x.com/'' ''a=b=c''
     = [\<lparr> name = ''a'', cvalue = Some ''b'', domain = ''x.com'', path = None, expires = None,
          maxAge = None, httpOnly = None, secure = None, sameSite = None,
          url = ''https://x.com/'' \<rparr>]"
  by code_simp

section \<open>Negative expiry in a snapshot\<close>

text \<open>
  Claim C10. A snapshot entry whose \<open>expires\<close> is negative gives a record with a
  defined \<open>expires\<close> before the epoch (time value below 0), and that record is the one
  stored when the key is new or its record has no expiry; the record is produced for
  every value within the range of \<open>Date\<close>, so for the browser's \<open>-1\<close>. Among the
  records a snapshot produces, only those from \<open>expires\<close> absent or 0 have no expiry.
\<close>

theorem negative_snapshot_expires_is_a_date:
  assumes "c_expires c = Some e" and "e < 0"
  shows "(- 8640000000000 \<le> e \<longrightarrow> (\<exists>r. snapshot_record c = Inr r))
     \<and> (\<forall>r. snapshot_record c = Inr r \<longrightarrow>
           expires r = Some (e * 1000) \<and> e * 1000 < 0
           \<and> (\<forall>m. (case map_get m (cookie_key (c_domain c) (c_name c)) of
                      None \<Rightarrow> True | Some x \<Rightarrow> expires x = None) \<longrightarrow>
                 map_get (snapshot_merge c m) (cookie_key (c_domain c) (c_name c)) = Some r))
     \<and> (\<forall>c' r'. snapshot_record c' = Inr r' \<longrightarrow>
           (expires r' = None \<longleftrightarrow> c_expires c' = None \<or> c_expires c' = Some 0))"
proof (intro conjI allI impI)
  assume "- 8640000000000 \<le> e"
  with assms show "\<exists>r. snapshot_record c = Inr r"
    by (simp add: snapshot_record_def snapshot_expires_def toISOString_def TimeClip_def)
next
  fix r assume r: "snapshot_record c = Inr r"
  with assms show "expires r = Some (e * 1000)"
    by (auto simp: snapshot_record_def snapshot_expires_def toISOString_def TimeClip_def
        split: if_splits sum.splits)
  from assms show "e * 1000 < 0" by simp
  fix m :: store
  assume "case map_get m (cookie_key (c_domain c) (c_name c)) of
            None \<Rightarrow> True | Some x \<Rightarrow> expires x = None"
  with r show "map_get (snapshot_merge c m) (cookie_key (c_domain c) (c_name c)) = Some r"
    by (simp add: snapshot_merge_def map_get_map_set)
next
  fix c' r' assume "snapshot_record c' = Inr r'"
  then show "expires r' = None \<longleftrightarrow> c_expires c' = None \<or> c_expires c' = Some 0"
    by (auto simp: snapshot_record_def snapshot_expires_def split: option.splits if_splits sum.splits)
qed

theorem negative_snapshot_expires_is_a_date_witness:
  "c_expires (snapshot_a (Some (- 1))) = Some (- 1) \<and> (- 1 :: int) < 0
   \<and> - 8640000000000 \<le> (- 1 :: int)
   \<and> (\<exists>r. snapshot_record (snapshot_a (Some (- 1))) = Inr r \<and> expires r = Some (- 1000)
          \<and> map_get (snapshot_merge (snapshot_a (Some (- 1))) [(''x.com|a'', header_a)])
               (cookie_key ''x.com'' ''a'') = Some r)"
proof -
  have h1: "c_expires (snapshot_a (Some (- 1))) = Some (- 1)" by (simp add: snapshot_a_def)
  have h2: "(- 1 :: int) < 0" by simp
  have h3: "- 8640000000000 \<le> (- 1 :: int)" by simp
  have h4: "case map_get [(''x.com|a'', header_a)]
              (cookie_key (c_domain (snapshot_a (Some (- 1)))) (c_name (snapshot_a (Some (- 1))))) of
            None \<Rightarrow> True | Some x \<Rightarrow> expires x = None"
    by (simp add: map_get_def cookie_key_def snapshot_a_def header_a_eq)
  have k: "cookie_key (c_domain (snapshot_a (Some (- 1)))) (c_name (snapshot_a (Some (- 1))))
           = cookie_key ''x.com'' ''a''"
    by (simp add: snapshot_a_def)
  from negative_snapshot_expires_is_a_date [OF h1 h2] h3 h4
  show ?thesis unfolding k using h1 h2 by fastforce
qed

section \<open>Observations from a request header\<close>

text \<open>
  Claim C4, as amended. The observations with a non-empty name are, in order, those of
  the segments whose text before the first \<open>=\<close> is non-empty, one per segment, each
  named by that text; and a segment with no \<open>=\<close> and some text is not dropped: it
  gives an observation named by the whole trimmed segment, with no value.
\<close>

theorem request_observations:
  "map name (filter (\<lambda>obs. name obs \<noteq> []) (request_cookies host u h))
     = filter (\<lambda>n. n \<noteq> [])
         (map (\<lambda>seg. takeWhile (\<lambda>x. x \<noteq> CHR ''='') (trim seg)) (split_on CHR '';'' h))
   \<and> (\<forall>seg \<in> set (split_on CHR '';'' h).
         CHR ''='' \<notin> set seg \<and> trim seg \<noteq> [] \<longrightarrow>
           request_cookie host u seg \<in> set (request_cookies host u h)
           \<and> name (request_cookie host u seg) = trim seg
           \<and> cvalue (request_cookie host u seg) = None)"
proof (intro conjI ballI impI)
  show "map name (filter (\<lambda>obs. name obs \<noteq> []) (request_cookies host u h))
     = filter (\<lambda>n. n \<noteq> [])
         (map (\<lambda>seg. takeWhile (\<lambda>x. x \<noteq> CHR ''='') (trim seg)) (split_on CHR '';'' h))"
    by (simp add: request_cookies_def request_cookie_def filter_map o_def hd_split_on)
next
  fix seg assume "seg \<in> set (split_on CHR '';'' h)"
  then show "request_cookie host u seg \<in> set (request_cookies host u h)"
    by (simp add: request_cookies_def)
next
  fix seg assume "CHR ''='' \<notin> set seg \<and> trim seg \<noteq> []"
  then have "CHR ''='' \<notin> set (trim seg)" using set_trim by blast
  then have s: "split_on CHR ''='' (trim seg) = [trim seg]" by (rule split_on_absent)
  show "name (request_cookie host u seg) = trim seg"
    by (simp add: request_cookie_def s)
  show "cvalue (request_cookie host u seg) = None"
    by (simp add: request_cookie_def s second_def)
qed

theorem request_observations_witness:
  "'' junk'' \<in> set (split_on CHR '';'' ''a=1; junk'')
   \<and> CHR ''='' \<notin> set '' junk'' \<and> trim '' junk'' = ''junk''
   \<and> request_cookie ''x.com'' ''https://x.com/'' '' junk''
        \<in> set (request_cookies ''x.com'' ''https://x.com/'' ''a=1; junk'')
   \<and> name (request_cookie ''x.com'' ''https://x.com/'' '' junk'') = ''junk''
   \<and> cvalue (request_cookie ''x.com'' ''https://x.com/'' '' junk'') = None
   \<and> map name (filter (\<lambda>obs. name obs \<noteq> [])
         (request_cookies ''x.com'' ''https://x.com/'' ''a=1; junk'')) = [''a'', ''junk'']"
proof -
  have h1: "'' junk'' \<in> set (split_on CHR '';'' ''a=1; junk'')" by simp
  have h2: "CHR ''='' \<notin> set '' junk''" by simp
  have h3: "trim '' junk'' = ''junk''" by (simp add: trim_def is_ws_def)
  have h4: "filter (\<lambda>n. n \<noteq> [])
         (map (\<lambda>seg. takeWhile (\<lambda>x. x \<noteq> CHR ''='') (trim seg)) (split_on CHR '';'' ''a=1; junk''))
       = [''a'', ''junk'']"
    by (simp add: trim_def is_ws_def)
  from request_observations [of "''x.com''" "''https://x.com/''" "''a=1; junk''"] h1 h2 h3 h4
  show ?thesis by auto
qed

text \<open>
  The claim as stated fails on the segment \<open>junk\<close> of \<open>Cookie: a=1; junk\<close>, which
  has no \<open>=\<close> and is recorded.
\<close>

theorem segment_without_equals_is_recorded:
  "request_cookies ''x.com'' ''https://x.com/'' ''a=1; junk''
     = [header_a,
        \<lparr> name = ''junk'', cvalue = None, domain = ''x.com'', path = None, expires = None,
          maxAge = None, httpOnly = None, secure = None, sameSite = None,
          url = ''https://x.com/'' \<rparr>]"
  by code_simp

section \<open>Adding seconds to the clock\<close>

text \<open>
  Replacing the seconds field of a local time \<open>t\<close> by its seconds plus \<open>s\<close> gives the
  local time \<open>t + 1000 * s\<close>; so line 143 moves the local time by \<open>seconds\<close> and
  reads the result back with the offset of that local time. The instant moves by
  \<open>seconds\<close> exactly when both offsets agree, and by an hour less across the change
  of 10 March 2024 in New York.
\<close>

lemma time_fields:
  "MakeDate (Day t) (MakeTime (HourFromTime t) (MinFromTime t) (SecFromTime t + s) (msFromTime t))
     = t + 1000 * s"
proof -
  have "t div (1000 * 60) = (t div 1000) div 60" by (rule zdiv_zmult2_eq) simp
  then have m: "t div 60000 = (t div 1000) div 60" by simp
  have "t div (60000 * 60) = (t div 60000) div 60" by (rule zdiv_zmult2_eq) simp
  then have h: "t div 3600000 = (t div 60000) div 60" by simp
  have "t div (3600000 * 24) = (t div 3600000) div 24" by (rule zdiv_zmult2_eq) simp
  then have d: "t div 86400000 = (t div 3600000) div 24" by simp
  have e1: "t = (t div 1000) * 1000 + t mod 1000"
    by (simp only: div_mult_mod_eq)
  have e2: "t div 1000 = (t div 60000) * 60 + (t div 1000) mod 60"
    unfolding m by (simp only: div_mult_mod_eq)
  have e3: "t div 60000 = (t div 3600000) * 60 + (t div 60000) mod 60"
    unfolding h by (simp only: div_mult_mod_eq)
  have e4: "t div 3600000 = (t div 86400000) * 24 + (t div 3600000) mod 24"
    unfolding d by (simp only: div_mult_mod_eq)
  define q1 where "q1 = t div 1000"
  define q2 where "q2 = t div 60000"
  define q3 where "q3 = t div 3600000"
  define q4 where "q4 = t div 86400000"
  define r1 where "r1 = t mod 1000"
  define r2 where "r2 = (t div 1000) mod 60"
  define r3 where "r3 = (t div 60000) mod 60"
  define r4 where "r4 = (t div 3600000) mod 24"
  from e1 e2 e3 e4 have f: "t = q1 * 1000 + r1" "q1 = q2 * 60 + r2" "q2 = q3 * 60 + r3"
    "q3 = q4 * 24 + r4"
    unfolding q1_def q2_def q3_def q4_def r1_def r2_def r3_def r4_def by blast+
  have "q4 * 86400000 + (r4 * 3600000 + r3 * 60000 + (r2 + s) * 1000 + r1) = t + 1000 * s"
    using f by (simp add: algebra_simps)
  then show ?thesis
    unfolding MakeDate_def MakeTime_def Day_def HourFromTime_def MinFromTime_def
      SecFromTime_def msFromTime_def q1_def q2_def q3_def q4_def r1_def r2_def r3_def r4_def .
qed


lemma add_seconds_eq:
  "add_seconds pd now seconds = TimeClip (UTC pd (LocalTime pd now + 1000 * seconds))"
  by (simp add: add_seconds_def setSeconds_def getSeconds_def Let_def time_fields)

lemma add_seconds_same_offset:
  assumes "add_seconds pd now n = Some t"
    and "LocalTZA_local pd (LocalTime pd now + 1000 * n) = LocalTZA_utc pd now"
  shows "t = now + 1000 * n"
proof -
  from assms(1) have "t = UTC pd (LocalTime pd now + 1000 * n)"
    by (simp add: add_seconds_eq TimeClip_def split: if_splits)
  also have "\<dots> = LocalTime pd now + 1000 * n - LocalTZA_utc pd now"
    by (simp add: UTC_def assms(2))
  also have "\<dots> = now + 1000 * n"
    by (simp add: LocalTime_def)
  finally show ?thesis .
qed

lemma add_seconds_across_offset_change:
  "add_seconds new_york 1710003600000 86400 = Some (1710003600000 + 82800000)"
  by (simp add: add_seconds_eq UTC_def LocalTime_def TimeClip_def new_york_def)

section \<open>The attribute loop\<close>

lemma max_age_not_expires: "max_age_attr p \<Longrightarrow> \<not> expires_attr p"
  by (auto simp: max_age_attr_def expires_attr_def startsWith_def)

lemma scan_other:
  "\<not> expires_attr p \<Longrightarrow> \<not> max_age_attr p \<Longrightarrow>
   scan_attrs pd now (p # ps) st = scan_attrs pd now ps st"
  by (cases st) (simp add: expires_attr_def max_age_attr_def)

lemma scan_others:
  "\<forall>p \<in> set xs. \<not> expires_attr p \<and> \<not> max_age_attr p \<Longrightarrow>
   scan_attrs pd now (xs @ ys) st = scan_attrs pd now ys st"
  by (induction xs) (simp_all add: scan_other)

lemma scan_expires:
  "expires_attr p \<Longrightarrow> new_Date pd (drop 8 (trim p)) = Some e \<Longrightarrow>
   scan_attrs pd now (p # ps) (ex, ma) = scan_attrs pd now ps (Some e, ma)"
  by (simp add: expires_attr_def toISOString_def)

lemma scan_bad_expires:
  "expires_attr p \<Longrightarrow> new_Date pd (drop 8 (trim p)) = None \<Longrightarrow>
   scan_attrs pd now (p # ps) st = Inl RangeError"
  by (cases st) (simp add: expires_attr_def toISOString_def)

lemma scan_max_age:
  "max_age_attr p \<Longrightarrow> parseInt (drop 8 (trim p)) = Some n \<Longrightarrow>
   scan_attrs pd now (p # ps) (ex, ma) =
     (if ex = None then
        (case add_seconds pd now n of
           None \<Rightarrow> Inl RangeError
         | Some t \<Rightarrow> scan_attrs pd now ps (Some t, Some n))
      else scan_attrs pd now ps (ex, Some n))"
  using max_age_not_expires [of p]
  by (simp add: expires_attr_def max_age_attr_def toISOString_def split: option.splits)

lemma scan_bad_max_age:
  "max_age_attr p \<Longrightarrow> parseInt (drop 8 (trim p)) = None \<Longrightarrow>
   scan_attrs pd now (p # ps) st = scan_attrs pd now ps st"
  using max_age_not_expires [of p]
  by (cases st) (simp add: expires_attr_def max_age_attr_def)

text \<open>From here on the loop is unfolded by the step lemmas above only.\<close>

declare scan_attrs.simps(2) [simp del]

lemma max_ages_Cons:
  "max_ages (p # ps) =
     (if max_age_attr p
      then (case parseInt (drop 8 (trim p)) of None \<Rightarrow> max_ages ps | Some n \<Rightarrow> n # max_ages ps)
      else max_ages ps)"
  by (simp add: max_ages_def map_filter_simps split: option.splits)

lemma max_ages_Nil: "max_ages [] = []"
  by (simp add: max_ages_def map_filter_simps)

text \<open>
  What the loop leaves in \<open>expires\<close> and \<open>maxAge\<close> when it ends without an exception,
  from any starting state.
\<close>

lemma scan_attrs_result:
  "scan_attrs pd now attrs (ex0, ma0) = Inr (ex, ma) \<Longrightarrow>
     ex = (if filter expires_attr attrs \<noteq> []
           then new_Date pd (drop 8 (trim (last (filter expires_attr attrs))))
           else if ex0 \<noteq> None then ex0
           else (case max_ages attrs of [] \<Rightarrow> None | n # ns \<Rightarrow> add_seconds pd now n))
     \<and> (ex0 \<noteq> None \<or> filter expires_attr attrs \<noteq> [] \<or> max_ages attrs \<noteq> [] \<longrightarrow> ex \<noteq> None)
     \<and> ma = (if max_ages attrs = [] then ma0 else Some (last (max_ages attrs)))"
proof (induction attrs arbitrary: ex0 ma0)
  case Nil
  then show ?case by (simp add: max_ages_Nil)
next
  case (Cons p ps)
  show ?case
  proof (cases "expires_attr p")
    case True
    then have nm: "\<not> max_age_attr p" using max_age_not_expires by blast
    show ?thesis
    proof (cases "new_Date pd (drop 8 (trim p))")
      case None
      with True Cons.prems show ?thesis by (simp add: scan_bad_expires)
    next
      case (Some e)
      with True Cons.prems have "scan_attrs pd now ps (Some e, ma0) = Inr (ex, ma)"
        by (simp add: scan_expires)
      from Cons.IH [OF this] True nm Some show ?thesis
        by (auto simp: max_ages_Cons)
    qed
  next
    case ne: False
    show ?thesis
    proof (cases "max_age_attr p")
      case False
      with ne Cons.prems have "scan_attrs pd now ps (ex0, ma0) = Inr (ex, ma)"
        by (simp add: scan_other)
      from Cons.IH [OF this] ne False show ?thesis
        by (auto simp: max_ages_Cons)
    next
      case True
      show ?thesis
      proof (cases "parseInt (drop 8 (trim p))")
        case None
        with True Cons.prems have "scan_attrs pd now ps (ex0, ma0) = Inr (ex, ma)"
          by (simp add: scan_bad_max_age)
        from Cons.IH [OF this] ne True None show ?thesis
          by (auto simp: max_ages_Cons)
      next
        case (Some n)
        show ?thesis
        proof (cases ex0)
          case None
          with True Some Cons.prems obtain t where t: "add_seconds pd now n = Some t"
            and r: "scan_attrs pd now ps (Some t, Some n) = Inr (ex, ma)"
            by (auto simp: scan_max_age split: option.splits)
          from Cons.IH [OF r] ne True Some None t show ?thesis
            by (auto simp: max_ages_Cons)
        next
          case (Some e0)
          with True \<open>parseInt (drop 8 (trim p)) = Some n\<close> Cons.prems
          have r: "scan_attrs pd now ps (Some e0, Some n) = Inr (ex, ma)"
            by (simp add: scan_max_age)
          from Cons.IH [OF r] ne True \<open>parseInt (drop 8 (trim p)) = Some n\<close> Some show ?thesis
            by (auto simp: max_ages_Cons)
        qed
      qed
    qed
  qed
qed

text \<open>When the loop ends without an exception.\<close>

lemma scan_attrs_total:
  assumes "\<forall>p \<in> set attrs. expires_attr p \<longrightarrow> new_Date pd (drop 8 (trim p)) \<noteq> None"
    and "ex0 = None \<longrightarrow>
         (\<forall>p \<in> set (takeWhile (\<lambda>p. \<not> expires_attr p) attrs). max_age_attr p \<longrightarrow>
            (\<forall>n. parseInt (drop 8 (trim p)) = Some n \<longrightarrow> add_seconds pd now n \<noteq> None))"
  shows "\<exists>st. scan_attrs pd now attrs (ex0, ma0) = Inr st"
  using assms
proof (induction attrs arbitrary: ex0 ma0)
  case Nil
  show ?case by simp
next
  case (Cons p ps)
  from Cons.prems(1) have rest: "\<forall>q \<in> set ps. expires_attr q \<longrightarrow> new_Date pd (drop 8 (trim q)) \<noteq> None"
    by simp
  show ?case
  proof (cases "expires_attr p")
    case True
    with Cons.prems(1) obtain e where e: "new_Date pd (drop 8 (trim p)) = Some e" by auto
    have "\<exists>st. scan_attrs pd now ps (Some e, ma0) = Inr st"
      by (rule Cons.IH [OF rest]) simp
    with True e show ?thesis by (simp add: scan_expires)
  next
    case ne: False
    with Cons.prems(2) have tw: "ex0 = None \<longrightarrow>
         (\<forall>q \<in> set (takeWhile (\<lambda>p. \<not> expires_attr p) ps). max_age_attr q \<longrightarrow>
            (\<forall>n. parseInt (drop 8 (trim q)) = Some n \<longrightarrow> add_seconds pd now n \<noteq> None))"
      by simp
    show ?thesis
    proof (cases "max_age_attr p")
      case False
      with ne Cons.IH [OF rest tw, of ma0] show ?thesis by (simp add: scan_other)
    next
      case True
      show ?thesis
      proof (cases "parseInt (drop 8 (trim p))")
        case None
        with True Cons.IH [OF rest tw, of ma0] show ?thesis by (simp add: scan_bad_max_age)
      next
        case (Some n)
        show ?thesis
        proof (cases ex0)
          case None
          with ne True Some Cons.prems(2) obtain t where t: "add_seconds pd now n = Some t"
            by auto
          have "\<exists>st. scan_attrs pd now ps (Some t, Some n) = Inr st"
            by (rule Cons.IH [OF rest]) simp
          with True Some None t show ?thesis by (simp add: scan_max_age)
        next
          case (Some e0)
          have "\<exists>st. scan_attrs pd now ps (Some e0, Some n) = Inr st"
            by (rule Cons.IH [OF rest]) simp
          with True \<open>parseInt (drop 8 (trim p)) = Some n\<close> Some show ?thesis
            by (simp add: scan_max_age)
        qed
      qed
    qed
  qed
qed

lemma parse_set_cookie_parts:
  "split_on CHR '';'' h = main # attrs \<Longrightarrow>
   parse_set_cookie pd now h =
     (if hd (split_on CHR ''='' (trim main)) = [] then Inr None
      else case scan_attrs pd now attrs (None, None) of
             Inl e \<Rightarrow> Inl e
           | Inr (ex, ma) \<Rightarrow>
               Inr (Some (Parsed (hd (split_on CHR ''='' (trim main)))
                            (second (split_on CHR ''='' (trim main))) ex ma)))"
  by (simp add: parse_set_cookie_def Let_def split: sum.splits)

section \<open>Expires and Max-Age together\<close>

text \<open>
  Claim C6. Take any \<open>Set-Cookie\<close> header, with attributes \<open>attrs\<close> after the first
  segment, and any observation it yields. If \<open>attrs\<close> holds an \<open>Expires\<close> attribute,
  \<open>expires\<close> of the observation is the parsed date of the last such attribute (of the
  only one, when there is one), whatever \<open>Max-Age\<close> attributes there are and wherever
  they stand: Expires wins, in either order. Only if \<open>attrs\<close> holds no \<open>Expires\<close>
  attribute does \<open>Max-Age\<close> decide: \<open>expires\<close> is then what lines 142-144 compute from
  the clock and the first number that \<open>parseInt\<close> accepts, which is
  \<open>now + 1000 * n\<close> milliseconds when the local offset is the same at both ends, and
  is undefined when there is no such number. \<open>maxAge\<close> is the last such number.
  The header yields an observation when its name is not empty, every \<open>Expires\<close>
  attribute parses, and every \<open>Max-Age\<close> number standing before the first
  \<open>Expires\<close> attribute gives a date that \<open>Date\<close> can hold.
\<close>

theorem expires_wins_over_max_age:
  assumes "split_on CHR '';'' h = main # attrs"
  shows "(\<forall>obs. parse_set_cookie pd now h = Inr (Some obs) \<longrightarrow>
            (filter expires_attr attrs \<noteq> [] \<longrightarrow>
               p_expires obs = new_Date pd (drop 8 (trim (last (filter expires_attr attrs))))
               \<and> p_expires obs \<noteq> None)
          \<and> (filter expires_attr attrs = [] \<longrightarrow>
               p_expires obs = (case max_ages attrs of [] \<Rightarrow> None
                                | n # ns \<Rightarrow> add_seconds pd now n)
               \<and> (\<forall>n ns. max_ages attrs = n # ns
                      \<and> LocalTZA_local pd (LocalTime pd now + 1000 * n) = LocalTZA_utc pd now \<longrightarrow>
                      p_expires obs = Some (now + 1000 * n)))
          \<and> p_maxAge obs = (if max_ages attrs = [] then None else Some (last (max_ages attrs))))
       \<and> (hd (split_on CHR ''='' (trim main)) \<noteq> []
          \<and> (\<forall>p \<in> set attrs. expires_attr p \<longrightarrow> new_Date pd (drop 8 (trim p)) \<noteq> None)
          \<and> (\<forall>p \<in> set (takeWhile (\<lambda>p. \<not> expires_attr p) attrs). max_age_attr p \<longrightarrow>
                (\<forall>n. parseInt (drop 8 (trim p)) = Some n \<longrightarrow> add_seconds pd now n \<noteq> None))
          \<longrightarrow> (\<exists>obs. parse_set_cookie pd now h = Inr (Some obs)))"
proof -
  have scanned: "\<exists>ex ma. scan_attrs pd now attrs (None, None) = Inr (ex, ma)
                  \<and> p_expires obs = ex \<and> p_maxAge obs = ma"
    if "parse_set_cookie pd now h = Inr (Some obs)" for obs
    using that
    by (auto simp: parse_set_cookie_parts [OF assms] split: if_splits sum.splits)
  have given: "p_expires obs = new_Date pd (drop 8 (trim (last (filter expires_attr attrs))))
               \<and> p_expires obs \<noteq> None"
    if p: "parse_set_cookie pd now h = Inr (Some obs)" and f: "filter expires_attr attrs \<noteq> []"
    for obs
  proof -
    from scanned [OF p] obtain ex ma where
      r: "scan_attrs pd now attrs (None, None) = Inr (ex, ma)" and o: "p_expires obs = ex"
      by blast
    from scan_attrs_result [OF r] f o show ?thesis by auto
  qed
  have absent: "p_expires obs = (case max_ages attrs of [] \<Rightarrow> None
                                | n # ns \<Rightarrow> add_seconds pd now n)
               \<and> (\<forall>n ns. max_ages attrs = n # ns
                      \<and> LocalTZA_local pd (LocalTime pd now + 1000 * n) = LocalTZA_utc pd now \<longrightarrow>
                      p_expires obs = Some (now + 1000 * n))"
    if p: "parse_set_cookie pd now h = Inr (Some obs)" and f: "filter expires_attr attrs = []"
    for obs
  proof -
    from scanned [OF p] obtain ex ma where
      r: "scan_attrs pd now attrs (None, None) = Inr (ex, ma)" and o: "p_expires obs = ex"
      by blast
    from scan_attrs_result [OF r] f o
    have e: "p_expires obs = (case max_ages attrs of [] \<Rightarrow> None
                                | n # ns \<Rightarrow> add_seconds pd now n)"
      by simp
    have "p_expires obs = Some (now + 1000 * n)"
      if m: "max_ages attrs = n # ns"
        and z: "LocalTZA_local pd (LocalTime pd now + 1000 * n) = LocalTZA_utc pd now"
      for n ns
    proof -
      from e m have a: "p_expires obs = add_seconds pd now n" by simp
      from scan_attrs_result [OF r] have "max_ages attrs \<noteq> [] \<longrightarrow> ex \<noteq> None" by blast
      with m have "ex \<noteq> None" by simp
      with a o obtain t where t: "add_seconds pd now n = Some t" by auto
      from add_seconds_same_offset [OF t z] a t show ?thesis by simp
    qed
    with e show ?thesis by blast
  qed
  have age: "p_maxAge obs = (if max_ages attrs = [] then None else Some (last (max_ages attrs)))"
    if p: "parse_set_cookie pd now h = Inr (Some obs)" for obs
  proof -
    from scanned [OF p] obtain ex ma where
      r: "scan_attrs pd now attrs (None, None) = Inr (ex, ma)" and o: "p_maxAge obs = ma"
      by blast
    from scan_attrs_result [OF r] o show ?thesis by simp
  qed
  have total: "\<exists>obs. parse_set_cookie pd now h = Inr (Some obs)"
    if n: "hd (split_on CHR ''='' (trim main)) \<noteq> []"
      and e: "\<forall>p \<in> set attrs. expires_attr p \<longrightarrow> new_Date pd (drop 8 (trim p)) \<noteq> None"
      and a: "\<forall>p \<in> set (takeWhile (\<lambda>p. \<not> expires_attr p) attrs). max_age_attr p \<longrightarrow>
                (\<forall>n. parseInt (drop 8 (trim p)) = Some n \<longrightarrow> add_seconds pd now n \<noteq> None)"
  proof -
    from a have "None = (None :: int option) \<longrightarrow>
         (\<forall>p \<in> set (takeWhile (\<lambda>p. \<not> expires_attr p) attrs). max_age_attr p \<longrightarrow>
            (\<forall>n. parseInt (drop 8 (trim p)) = Some n \<longrightarrow> add_seconds pd now n \<noteq> None))"
      by simp
    from scan_attrs_total [OF e this, of None] obtain st where
      "scan_attrs pd now attrs (None, None) = Inr st" by blast
    with n show ?thesis
      by (cases st) (simp add: parse_set_cookie_parts [OF assms])
  qed
  from given absent age total show ?thesis by blast
qed


theorem expires_wins_over_max_age_witness:
  "split_on CHR '';'' ''a=1; Path=/; Max-Age=60; Expires=Thu, 01 Jan 1970 00:00:10 GMT''
     = [''a=1'', '' Path=/'', '' Max-Age=60'', '' Expires=Thu, 01 Jan 1970 00:00:10 GMT'']
   \<and> split_on CHR '';'' ''a=1; Expires=Thu, 01 Jan 1970 00:00:10 GMT; Max-Age=60''
     = [''a=1'', '' Expires=Thu, 01 Jan 1970 00:00:10 GMT'', '' Max-Age=60'']
   \<and> split_on CHR '';'' ''a=1; Path=/; Max-Age=60'' = [''a=1'', '' Path=/'', '' Max-Age=60'']
   \<and> hd (split_on CHR ''='' (trim ''a=1'')) = ''a''
   \<and> \<not> expires_attr '' Path=/'' \<and> \<not> max_age_attr '' Path=/''
   \<and> expires_attr '' Expires=Thu, 01 Jan 1970 00:00:10 GMT''
   \<and> new_Date one_date (drop 8 (trim '' Expires=Thu, 01 Jan 1970 00:00:10 GMT'')) = Some 10000
   \<and> max_age_attr '' Max-Age=60'' \<and> \<not> expires_attr '' Max-Age=60''
   \<and> parseInt (drop 8 (trim '' Max-Age=60'')) = Some 60
   \<and> add_seconds one_date 0 60 = Some 60000
   \<and> LocalTZA_local one_date (LocalTime one_date 0 + 1000 * 60) = LocalTZA_utc one_date 0
   \<and> (\<exists>obs. parse_set_cookie one_date 0
                ''a=1; Path=/; Max-Age=60; Expires=Thu, 01 Jan 1970 00:00:10 GMT'' = Inr (Some obs)
          \<and> p_expires obs = Some 10000 \<and> p_maxAge obs = Some 60)
   \<and> (\<exists>obs. parse_set_cookie one_date 0
                ''a=1; Expires=Thu, 01 Jan 1970 00:00:10 GMT; Max-Age=60'' = Inr (Some obs)
          \<and> p_expires obs = Some 10000 \<and> p_maxAge obs = Some 60)
   \<and> (\<exists>obs. parse_set_cookie one_date 0 ''a=1; Path=/; Max-Age=60'' = Inr (Some obs)
          \<and> p_expires obs = Some (0 + 1000 * 60) \<and> p_maxAge obs = Some 60)"
proof -
  let ?pe = "'' Expires=Thu, 01 Jan 1970 00:00:10 GMT''"
  let ?pm = "'' Max-Age=60''"
  let ?po = "'' Path=/''"
  let ?hA = "''a=1; Path=/; Max-Age=60; Expires=Thu, 01 Jan 1970 00:00:10 GMT''"
  let ?hB = "''a=1; Expires=Thu, 01 Jan 1970 00:00:10 GMT; Max-Age=60''"
  let ?hC = "''a=1; Path=/; Max-Age=60''"
  have sA: "split_on CHR '';'' ?hA = ''a=1'' # [?po, ?pm, ?pe]" by code_simp
  have sB: "split_on CHR '';'' ?hB = ''a=1'' # [?pe, ?pm]" by code_simp
  have sC: "split_on CHR '';'' ?hC = ''a=1'' # [?po, ?pm]" by code_simp
  have n: "hd (split_on CHR ''='' (trim ''a=1'')) = ''a''" by code_simp
  have o1: "\<not> expires_attr ?po" by code_simp
  have o2: "\<not> max_age_attr ?po" by code_simp
  have e1: "expires_attr ?pe" by code_simp
  have e2: "new_Date one_date (drop 8 (trim ?pe)) = Some 10000" by code_simp
  have m1: "max_age_attr ?pm" by code_simp
  have m2: "\<not> expires_attr ?pm" by code_simp
  have m3: "parseInt (drop 8 (trim ?pm)) = Some 60" by code_simp
  have a: "add_seconds one_date 0 60 = Some 60000" by code_simp
  have z: "LocalTZA_local one_date (LocalTime one_date 0 + 1000 * 60) = LocalTZA_utc one_date 0"
    by (simp add: one_date_def)
  have e3: "\<not> max_age_attr ?pe" using e1 max_age_not_expires by blast
  have fA: "filter expires_attr [?po, ?pm, ?pe] = [?pe]" using o1 m2 e1 by simp
  have fB: "filter expires_attr [?pe, ?pm] = [?pe]" using m2 e1 by simp
  have fC: "filter expires_attr [?po, ?pm] = []" using o1 m2 by simp
  have gA: "max_ages [?po, ?pm, ?pe] = [60]"
    using o2 m1 m3 e3 by (simp add: max_ages_Cons max_ages_Nil)
  have gB: "max_ages [?pe, ?pm] = [60]"
    using m1 m3 e3 by (simp add: max_ages_Cons max_ages_Nil)
  have gC: "max_ages [?po, ?pm] = [60]"
    using o2 m1 m3 by (simp add: max_ages_Cons max_ages_Nil)
  note tA = expires_wins_over_max_age [OF sA, of one_date 0]
  note tB = expires_wins_over_max_age [OF sB, of one_date 0]
  note tC = expires_wins_over_max_age [OF sC, of one_date 0]
  have "\<exists>obs. parse_set_cookie one_date 0 ?hA = Inr (Some obs)"
    using tA n o1 o2 e1 e2 m1 m2 m3 a by simp
  then obtain obsA where pA: "parse_set_cookie one_date 0 ?hA = Inr (Some obsA)" ..
  with tA fA gA e2 have rA: "p_expires obsA = Some 10000 \<and> p_maxAge obsA = Some 60"
    by simp
  have "\<exists>obs. parse_set_cookie one_date 0 ?hB = Inr (Some obs)"
    using tB n e1 e2 m1 m2 m3 a by simp
  then obtain obsB where pB: "parse_set_cookie one_date 0 ?hB = Inr (Some obsB)" ..
  with tB fB gB e2 have rB: "p_expires obsB = Some 10000 \<and> p_maxAge obsB = Some 60"
    by simp
  have "\<exists>obs. parse_set_cookie one_date 0 ?hC = Inr (Some obs)"
    using tC n o1 o2 m1 m2 m3 a by simp
  then obtain obsC where pC: "parse_set_cookie one_date 0 ?hC = Inr (Some obsC)" ..
  with tC fC gC z a have rC: "p_expires obsC = Some (0 + 1000 * 60) \<and> p_maxAge obsC = Some 60"
    by simp
  from sA sB sC n o1 o2 e1 e2 m1 m2 m3 a z pA rA pB rB pC rC show ?thesis
    by blast
qed

section \<open>An Expires attribute that is not a date\<close>

text \<open>
  Claim C7 says that an attribute that cannot be parsed counts as absent and the cookie
  is still recorded. That is so for \<open>Max-Age\<close> (line 138). For \<open>Expires\<close> the source
  calls \<open>toISOString\<close> on the Invalid Date (line 135), which throws; the \<open>catch\<close> of
  line 170 logs it and the cookie is not recorded.
\<close>

theorem unparseable_expires_drops_the_cookie:
  "on_response no_dates 0 ''https://x.com/'' ''x.com'' (Some (HString ''s=tok; Expires=soon'')) [] = []
   \<and> on_response no_dates 0 ''https://x.com/'' ''x.com'' (Some (HString ''s=tok; Max-Age=soon'')) []
       = [(''x.com|s'',
           \<lparr> name = ''s'', cvalue = Some ''tok'', domain = ''x.com'', path = None, expires = None,
             maxAge = None, httpOnly = None, secure = None, sameSite = None,
             url = ''https://x.com/'' \<rparr>)]"
  by code_simp

section \<open>Keys are never lost and never doubled\<close>

lemma map_get_in: "map_get m k = Some v \<Longrightarrow> (k, v) \<in> set m"
  by (simp add: map_get_def map_of_SomeD)

lemma map_get_Some_keys: "map_get m k = Some v \<Longrightarrow> k \<in> keys m"
  unfolding keys_def by (metis map_get_in fst_conv image_eqI)

lemma keys_set: "keys (map_set k v m) = insert k (keys m)"
  using keys_map_set [of k v m] by (simp add: keys_def)

lemma well_keyed_map_set:
  "well_keyed m \<Longrightarrow> k = cookie_key (domain r) (name r) \<Longrightarrow> well_keyed (map_set k r m)"
  by (auto simp: well_keyed_def distinct_map_set dest: map_set_entries)

lemma well_keyed_merge_request: "well_keyed m \<Longrightarrow> well_keyed (merge_request c m)"
  by (simp add: merge_request_def well_keyed_map_set)

lemma keys_merge_request:
  "keys (merge_request c m) = insert (cookie_key (domain c) (name c)) (keys m)"
  by (simp add: merge_request_def keys_set)

lemma well_keyed_merge_set_cookie:
  assumes "well_keyed m"
  shows "well_keyed (merge_set_cookie host u p m)"
proof (cases "map_get m (cookie_key host (p_name p))")
  case None
  then show ?thesis using assms by (simp add: merge_set_cookie_def well_keyed_map_set)
next
  case (Some r)
  then have "(cookie_key host (p_name p), r) \<in> set m" by (rule map_get_in)
  with assms have "cookie_key host (p_name p) = cookie_key (domain r) (name r)"
    by (auto simp: well_keyed_def)
  then show ?thesis using assms Some by (simp add: merge_set_cookie_def well_keyed_map_set)
qed

lemma keys_merge_set_cookie:
  "keys (merge_set_cookie host u p m) = insert (cookie_key host (p_name p)) (keys m)"
  by (simp add: merge_set_cookie_def keys_set Let_def split: option.splits)

lemma well_keyed_snapshot_merge:
  assumes "well_keyed m"
  shows "well_keyed (snapshot_merge c m)"
proof (cases "snapshot_record c")
  case (Inl e)
  then show ?thesis using assms by (simp add: snapshot_merge_def Let_def)
next
  case (Inr r)
  then have "cookie_key (c_domain c) (c_name c) = cookie_key (domain r) (name r)"
    by (auto simp: snapshot_record_def split: sum.splits)
  then show ?thesis using assms Inr
    by (simp add: snapshot_merge_def Let_def well_keyed_map_set)
qed

lemma keys_snapshot_merge:
  "keys (snapshot_merge c m) =
     keys m \<union> (case snapshot_record c of
                  Inr r \<Rightarrow> {cookie_key (c_domain c) (c_name c)} | Inl e \<Rightarrow> {})"
proof (cases "map_get m (cookie_key (c_domain c) (c_name c))")
  case None
  then show ?thesis
    by (simp add: snapshot_merge_def keys_set split: sum.splits)
next
  case (Some x)
  then have "cookie_key (c_domain c) (c_name c) \<in> keys m"
    by (rule map_get_Some_keys)
  then show ?thesis using Some
    by (auto simp: snapshot_merge_def keys_set split: sum.splits)
qed

lemma foldl_invariant:
  assumes "\<And>m x. P m \<Longrightarrow> P (f m x)" and "P m"
  shows "P (foldl f m xs)"
  using assms(2) by (induction xs arbitrary: m) (simp_all add: assms(1))

lemma foldl_keys:
  assumes "\<And>m x. keys (f m x) = keys m \<union> K x"
  shows "keys (foldl f m xs) = keys m \<union> (\<Union>x \<in> set xs. K x)"
proof (induction xs arbitrary: m)
  case Nil
  show ?case by simp
next
  case (Cons x xs)
  have "keys (foldl f m (x # xs)) = keys (f m x) \<union> (\<Union>x \<in> set xs. K x)"
    by (simp add: Cons.IH)
  also have "\<dots> = keys m \<union> (\<Union>y \<in> set (x # xs). K y)"
    by (simp add: assms Un_assoc)
  finally show ?case .
qed

lemma well_keyed_on_request: "well_keyed m \<Longrightarrow> well_keyed (on_request u host h m)"
  by (simp add: on_request_def foldl_invariant well_keyed_merge_request split: option.splits)

lemma well_keyed_on_set_cookie: "well_keyed m \<Longrightarrow> well_keyed (on_set_cookie pd now host u s m)"
  by (simp add: on_set_cookie_def well_keyed_merge_set_cookie split: sum.splits option.splits)

lemma well_keyed_on_response: "well_keyed m \<Longrightarrow> well_keyed (on_response pd now u host hv m)"
  unfolding on_response_def by (rule foldl_invariant) (simp_all add: well_keyed_on_set_cookie)

lemma well_keyed_capturePageCookies: "well_keyed m \<Longrightarrow> well_keyed (capturePageCookies cs m)"
  by (simp add: capturePageCookies_def foldl_invariant well_keyed_snapshot_merge split: option.splits)

lemma well_keyed_step: "well_keyed m \<Longrightarrow> well_keyed (step pd m ev)"
  by (cases ev)
    (simp_all add: well_keyed_on_request well_keyed_on_response well_keyed_capturePageCookies)

lemma keys_on_set_cookie:
  "keys (on_set_cookie pd now host u s m) =
     keys m \<union> set (case parse_set_cookie pd now s of
                      Inr (Some p) \<Rightarrow> [cookie_key host (p_name p)] | _ \<Rightarrow> [])"
  by (simp add: on_set_cookie_def keys_merge_set_cookie split: sum.splits option.splits)

lemma keys_on_request:
  "keys (on_request u host h m) = keys m \<union> set (event_keys pd (Request u host h))"
proof -
  have "keys (foldl (\<lambda>m c. merge_request c m) m cs)
        = keys m \<union> (\<Union>c \<in> set cs. {cookie_key (domain c) (name c)})" for cs
    by (rule foldl_keys) (simp add: keys_merge_request)
  then show ?thesis
    by (auto simp: on_request_def event_keys_def split: option.splits)
qed

lemma keys_on_response:
  "keys (on_response pd now u host hv m) = keys m \<union> set (event_keys pd (Response now u host hv))"
proof -
  have "keys (foldl (\<lambda>m s. on_set_cookie pd now host u s m) m ss)
        = keys m \<union> (\<Union>s \<in> set ss. set (case parse_set_cookie pd now s of
                      Inr (Some p) \<Rightarrow> [cookie_key host (p_name p)] | _ \<Rightarrow> []))" for ss
    by (rule foldl_keys) (rule keys_on_set_cookie)
  then show ?thesis
    by (simp add: on_response_def event_keys_def)
qed

lemma keys_capturePageCookies:
  "keys (capturePageCookies cs m) = keys m \<union> set (event_keys pd (Snapshot cs))"
proof -
  have "keys (foldl (\<lambda>m c. snapshot_merge c m) m xs)
        = keys m \<union> (\<Union>c \<in> set xs. case snapshot_record c of
               Inr r \<Rightarrow> {cookie_key (c_domain c) (c_name c)} | Inl e \<Rightarrow> {})" for xs
    by (rule foldl_keys) (rule keys_snapshot_merge)
  moreover have "set (concat (map (\<lambda>c. case snapshot_record c of
               Inr r \<Rightarrow> [cookie_key (c_domain c) (c_name c)] | Inl e \<Rightarrow> []) xs))
        = (\<Union>c \<in> set xs. case snapshot_record c of
               Inr r \<Rightarrow> {cookie_key (c_domain c) (c_name c)} | Inl e \<Rightarrow> {})" for xs
    by (induction xs) (simp_all split: sum.splits)
  ultimately show ?thesis
    by (cases cs) (simp_all add: capturePageCookies_def event_keys_def)
qed

lemma keys_step: "keys (step pd m ev) = keys m \<union> set (event_keys pd ev)"
  by (cases ev) (simp_all add: keys_on_request keys_on_response keys_capturePageCookies)

lemma well_keyed_foldl_step: "well_keyed m \<Longrightarrow> well_keyed (foldl (step pd) m evs)"
  by (rule foldl_invariant) (simp_all add: well_keyed_step)

lemma keys_foldl_step:
  "keys (foldl (step pd) m evs) = keys m \<union> (\<Union>ev \<in> set evs. set (event_keys pd ev))"
  by (rule foldl_keys) (rule keys_step)

section \<open>Grouping by domain\<close>

lemma push_view_lookup:
  "push_view c acc = Inr acc' \<Longrightarrow>
   map_get acc' d =
     (if d = domain c
      then Some ((case map_get acc d of None \<Rightarrow> [] | Some vs \<Rightarrow> vs) @ [view_of c])
      else map_get acc d)"
  by (auto simp: push_view_def map_get_map_set split: option.splits if_splits)

lemma push_view_distinct:
  "push_view c acc = Inr acc' \<Longrightarrow> distinct (map fst acc) \<Longrightarrow> distinct (map fst acc')"
  by (auto simp: push_view_def distinct_map_set split: option.splits if_splits)

lemma group_views_distinct:
  "group_views cs acc = Inr res \<Longrightarrow> distinct (map fst acc) \<Longrightarrow> distinct (map fst res)"
proof (induction cs arbitrary: acc)
  case Nil
  then show ?case by simp
next
  case (Cons c cs)
  then show ?case
    by (auto split: sum.splits dest: push_view_distinct)
qed

lemma group_views_lookup:
  "group_views cs acc = Inr res \<Longrightarrow>
   map_get res d =
     (case map_get acc d of
        Some vs \<Rightarrow> Some (vs @ map view_of (filter (\<lambda>c. domain c = d) cs))
      | None \<Rightarrow>
          if filter (\<lambda>c. domain c = d) cs = [] then None
          else Some (map view_of (filter (\<lambda>c. domain c = d) cs)))"
proof (induction cs arbitrary: acc)
  case Nil
  then show ?case by (simp split: option.splits)
next
  case (Cons c cs)
  from Cons.prems obtain acc' where p: "push_view c acc = Inr acc'"
    and g: "group_views cs acc' = Inr res"
    by (auto split: sum.splits)
  show ?case
    unfolding Cons.IH [OF g] push_view_lookup [OF p]
    by (simp split: option.splits)
qed

lemma group_views_total:
  "\<forall>c \<in> set cs. domain c \<notin> set object_prototype_keys \<Longrightarrow> \<exists>res. group_views cs acc = Inr res"
proof (induction cs arbitrary: acc)
  case Nil
  show ?case by simp
next
  case (Cons c cs)
  from Cons.prems have "\<exists>acc'. push_view c acc = Inr acc'"
    by (cases "map_get acc (domain c)") (simp_all add: push_view_def)
  then obtain acc' where "push_view c acc = Inr acc'" ..
  with Cons show ?case by simp
qed

section \<open>One record per key, and the count of the report\<close>

text \<open>
  Claim C8. After any run the store has no key twice and every record sits at the key
  made of its own domain and name, so no two entries share a (domain, name) pair. The
  keys of the store are exactly the keys of the observations merged during the run, a
  longer run only adds keys, and \<open>totalCookies\<close> of the report is the number of those
  distinct keys. The report is built whenever no record's domain is the name of a
  property that a plain object inherits (\<open>cookiesByDomain\<close> is a plain object).
\<close>

theorem one_record_per_key:
  "distinct (map fst (run pd evs))
   \<and> (\<forall>(k, r) \<in> set (run pd evs). k = cookie_key (domain r) (name r))
   \<and> (\<forall>i < length (run pd evs). \<forall>j < length (run pd evs).
         domain (snd (run pd evs ! i)) = domain (snd (run pd evs ! j))
         \<and> name (snd (run pd evs ! i)) = name (snd (run pd evs ! j)) \<longrightarrow> i = j)
   \<and> keys (run pd evs) = (\<Union>ev \<in> set evs. set (event_keys pd ev))
   \<and> keys (run pd evs) \<subseteq> keys (run pd (evs @ evs'))
   \<and> (\<forall>rep. build_report u date (run pd evs) = Inr rep \<longrightarrow>
         totalCookies rep = card (\<Union>ev \<in> set evs. set (event_keys pd ev)))
   \<and> ((\<forall>r \<in> snd ` set (run pd evs). domain r \<notin> set object_prototype_keys) \<longrightarrow>
         (\<exists>rep. build_report u date (run pd evs) = Inr rep))"
proof -
  let ?s = "run pd evs"
  have wk: "well_keyed ?s"
    unfolding run_def by (rule well_keyed_foldl_step) (simp add: well_keyed_def)
  then have d: "distinct (map fst ?s)"
    and kr: "\<forall>(k, r) \<in> set ?s. k = cookie_key (domain r) (name r)"
    by (simp_all add: well_keyed_def)
  have ks: "keys ?s = (\<Union>ev \<in> set evs. set (event_keys pd ev))"
    unfolding run_def using keys_foldl_step [of pd "[]" evs] by (simp add: keys_def)
  have once: "i = j"
    if "i < length ?s" "j < length ?s"
      and "domain (snd (?s ! i)) = domain (snd (?s ! j)) \<and> name (snd (?s ! i)) = name (snd (?s ! j))"
    for i j
  proof -
    have "fst (?s ! i) = cookie_key (domain (snd (?s ! i))) (name (snd (?s ! i)))"
      using kr that(1) nth_mem [of i ?s] by (auto simp: case_prod_beta)
    moreover have "fst (?s ! j) = cookie_key (domain (snd (?s ! j))) (name (snd (?s ! j)))"
      using kr that(2) nth_mem [of j ?s] by (auto simp: case_prod_beta)
    ultimately have "map fst ?s ! i = map fst ?s ! j"
      using that by simp
    with d that(1,2) show ?thesis
      by (simp add: nth_eq_iff_index_eq del: nth_map)
  qed
  have mono: "keys ?s \<subseteq> keys (run pd (evs @ evs'))"
    unfolding run_def by (simp add: keys_foldl_step)
  have len: "length ?s = card (\<Union>ev \<in> set evs. set (event_keys pd ev))"
    using distinct_card [OF d] ks by (simp add: keys_def)
  have total: "totalCookies rep = card (\<Union>ev \<in> set evs. set (event_keys pd ev))"
    if "build_report u date ?s = Inr rep" for rep
    using that len by (auto simp: build_report_def Let_def split: sum.splits)
  have built: "\<exists>rep. build_report u date ?s = Inr rep"
    if "\<forall>r \<in> snd ` set ?s. domain r \<notin> set object_prototype_keys"
  proof -
    from that have "\<forall>c \<in> set (map snd ?s). domain c \<notin> set object_prototype_keys" by simp
    from group_views_total [OF this, of "[]"] show ?thesis
      by (auto simp: build_report_def Let_def)
  qed
  from d kr once ks mono total built show ?thesis by blast
qed

theorem one_record_per_key_witness:
  "keys (run no_dates example_events) = {''x.com|a'', ''x.com|b''}
   \<and> (\<exists>rep. build_report ''https://x.com/'' 0 (run no_dates example_events) = Inr rep
          \<and> totalCookies rep = 2)
   \<and> card (\<Union>ev \<in> set example_events. set (event_keys no_dates ev)) = 2"
proof -
  let ?s = "run no_dates example_events"
  have r: "map fst ?s = [''x.com|a'', ''x.com|b'']" by code_simp
  then have k: "keys ?s = {''x.com|a'', ''x.com|b''}"
    unfolding keys_def by (metis list.set(1) list.set(2) set_map)
  have "map_sum id totalCookies (build_report ''https://x.com/'' 0 ?s) = Inr 2" by code_simp
  then obtain rep where b: "build_report ''https://x.com/'' 0 ?s = Inr rep"
    and t: "totalCookies rep = 2"
    by (cases "build_report ''https://x.com/'' 0 ?s") auto
  from one_record_per_key [of no_dates example_events "[]" "''https://x.com/''" 0] b t
  have "card (\<Union>ev \<in> set example_events. set (event_keys no_dates ev)) = 2" by auto
  with k b t show ?thesis by blast
qed

section \<open>The two views of the report\<close>

text \<open>
  Claim C9. In a report, \<open>allCookies\<close> is the list of the store's records as they are,
  so \<open>expires\<close> stays undefined there when it is undefined in the record (the field
  holds a date or nothing, never the sentinel). Each group of \<open>cookiesByDomain\<close> is the
  list of the views of the records of that domain, in order; the \<open>expires\<close> of a view
  is the record's date when it has one and the string
  \<open>Session cookie (no expiration)\<close> when it has none; and every record has its view
  in the group of its domain.
\<close>

theorem grouped_view_uses_sentinel:
  assumes "build_report u date m = Inr rep"
  shows "allCookies rep = map snd m
   \<and> (\<forall>(d, views) \<in> set (cookiesByDomain rep).
         views = map view_of (filter (\<lambda>c. domain c = d) (allCookies rep))
         \<and> list_all2
             (\<lambda>v c. v_expires v = (case expires c of
                                      None \<Rightarrow> Text ''Session cookie (no expiration)''
                                    | Some t \<Rightarrow> Iso t))
             views (filter (\<lambda>c. domain c = d) (allCookies rep)))
   \<and> (\<forall>c \<in> set (allCookies rep).
         \<exists>views. map_get (cookiesByDomain rep) (domain c) = Some views \<and> view_of c \<in> set views)"
proof -
  from assms obtain byDomain where g: "group_views (map snd m) [] = Inr byDomain"
    and rep: "rep = \<lparr> r_url = u, captureDate = date, totalCookies = length (map snd m),
                     cookiesByDomain = byDomain, allCookies = map snd m \<rparr>"
    by (auto simp: build_report_def Let_def split: sum.splits)
  have a: "allCookies rep = map snd m" by (simp add: rep)
  have look: "map_get byDomain d =
      (if filter (\<lambda>c. domain c = d) (map snd m) = [] then None
       else Some (map view_of (filter (\<lambda>c. domain c = d) (map snd m))))" for d
    using group_views_lookup [OF g, of d] by (simp add: map_get_def)
  have dist: "distinct (map fst byDomain)"
    using group_views_distinct [OF g] by simp
  have v: "views = map view_of (filter (\<lambda>c. domain c = d) (map snd m))"
    if "(d, views) \<in> set byDomain" for d views
  proof -
    from dist that have "map_get byDomain d = Some views"
      by (simp add: map_get_def)
    with look [of d] show ?thesis by (simp split: if_splits)
  qed
  have e: "list_all2
             (\<lambda>v c. v_expires v = (case expires c of
                                      None \<Rightarrow> Text ''Session cookie (no expiration)''
                                    | Some t \<Rightarrow> Iso t))
             (map view_of cs) cs" for cs
    by (simp add: list_all2_map1 list_all2_same view_of_def)
  have "\<exists>views. map_get byDomain (domain c) = Some views \<and> view_of c \<in> set views"
    if "c \<in> set (map snd m)" for c
  proof -
    from that have "filter (\<lambda>x. domain x = domain c) (map snd m) \<noteq> []"
      by (auto simp: filter_empty_conv)
    moreover from that have "view_of c \<in> set (map view_of (filter (\<lambda>x. domain x = domain c) (map snd m)))"
      by auto
    ultimately show ?thesis using look [of "domain c"] by auto
  qed
  with a v e show ?thesis by (auto simp: rep)
qed

theorem grouped_view_uses_sentinel_witness:
  "(\<exists>rep. build_report ''https://x.com/'' 0 example_store = Inr rep
        \<and> allCookies rep = map snd example_store
        \<and> map expires (allCookies rep) = [Some 10000, None]
        \<and> map_get (cookiesByDomain rep) ''x.com'' = Some [view_of stored_a]
        \<and> v_expires (view_of stored_a) = Iso 10000
        \<and> map (map v_expires \<circ> snd) (cookiesByDomain rep)
            = [[Iso 10000], [Text ''Session cookie (no expiration)'']])"
proof -
  have "map_sum id (map (map v_expires \<circ> snd) \<circ> cookiesByDomain)
          (build_report ''https://x.com/'' 0 example_store)
        = Inr [[Iso 10000], [Text ''Session cookie (no expiration)'']]"
    by code_simp
  then obtain rep where b: "build_report ''https://x.com/'' 0 example_store = Inr rep"
    and c: "map (map v_expires \<circ> snd) (cookiesByDomain rep)
            = [[Iso 10000], [Text ''Session cookie (no expiration)'']]"
    by (cases "build_report ''https://x.com/'' 0 example_store") auto
  have x: "map expires (map snd example_store) = [Some 10000, None]" by code_simp
  have y: "filter (\<lambda>c. domain c = ''x.com'') (map snd example_store) = [stored_a]"
    by code_simp
  have z: "v_expires (view_of stored_a) = Iso 10000" by code_simp
  have m: "stored_a \<in> set (map snd example_store)" by (simp add: example_store_def)
  have dm: "domain stored_a = ''x.com''" by code_simp
  note t = grouped_view_uses_sentinel [OF b]
  from t have a: "allCookies rep = map snd example_store" by blast
  from t m a dm obtain views where
    l: "map_get (cookiesByDomain rep) ''x.com'' = Some views" by fastforce
  then have "(''x.com'', views) \<in> set (cookiesByDomain rep)" by (rule map_get_in)
  with t a y have "views = [view_of stored_a]" by fastforce
  with b a x l z c show ?thesis by simp
qed

end
